theory Spec2Isabelle
  imports
    Complex_Main
    "HOL-Library.Word"
    "HOL-Library.AList"
    "HOL-Library.Char_ord"
    "HOL-Library.List_Lexorder"
    "HOL-Library.Sublist"
begin

section \<open>Values of the program\<close>

type_synonym bytes = string
type_synonym uint32 = "32 word"

datatype fault =
    Panic string   \<comment> \<open>the call panics, with this message\<close>
  | Blocked        \<comment> \<open>the call waits for the mutex and never returns\<close>

text \<open>
  The form package is imported by \<^verbatim>\<open>user.go\<close>, not defined there. An element is the
  fields that \<^verbatim>\<open>elemToMap\<close> reads of it, in the order it reads them. A form is what
  each method that \<^verbatim>\<open>SendForm\<close> calls on it does: it returns a value (\<open>Inr\<close>) or panics
  (\<open>Inl\<close>), as \<open>Buttons()\<close> and \<open>Elements()\<close> do on the zero values \<open>form.Menu{}\<close>,
  \<open>form.Custom{}\<close> and \<open>form.Modal{}\<close>.
  \<open>form.Element\<close> and \<open>form.Form\<close> are Go interfaces. An element whose dynamic type is
  none of the cases of the type switch (a nil interface included) is \<open>OtherElement\<close>. A
  form whose dynamic type is none of the cases is \<open>OtherForm\<close> when it is a value, and
  \<open>NilForm\<close> when it is the nil interface, on which no method can be called.
\<close>

record Button =
  Text :: string
  Image :: string

datatype Element =
    Toggle string bool                  \<comment> \<open>Text, Default\<close>
  | Input string string string          \<comment> \<open>Text, Default, Placeholder\<close>
  | Label string                        \<comment> \<open>Text\<close>
  | Slider string real real real real   \<comment> \<open>Text, Min, Max, StepSize, Default\<close>
  | Dropdown string "string list" int   \<comment> \<open>Text, Options, DefaultIndex\<close>
  | StepSlider string "string list" int \<comment> \<open>Text, Options, DefaultIndex\<close>
  | OtherElement

datatype Form =
    Custom "fault + string" "fault + Element list"
      \<comment> \<open>Title(), Elements()\<close>
  | Menu "fault + string" "fault + string" "fault + Button list"
      \<comment> \<open>Title(), Body(), Buttons()\<close>
  | Modal "fault + string" "fault + string" "fault + Button list"
      \<comment> \<open>Title(), Body(), Buttons()\<close>
  | OtherForm
  | NilForm

text \<open>
  A \<^verbatim>\<open>map[string]interface{}\<close> is an association list with one entry per key, in the
  order the keys were first stored; \<open>m[k] = v\<close> is \<^const>\<open>AList.update\<close>. \<open>JList\<close> is a
  \<^verbatim>\<open>[]map[string]interface{}\<close>; the only such slice in the program is \<open>n\<close>, which is nil
  exactly when it is empty.
\<close>

datatype jvalue =
    JStr string
  | JBool bool
  | JNum real
  | JInt int
  | JStrs "string list"
  | JList "jvalue list"
  | JObj "(string \<times> jvalue) list"

type_synonym document = "(string \<times> jvalue) list"

section \<open>The encoder\<close>

text \<open>\<^verbatim>\<open>elemToMap\<close>: one map literal per case, the panic after the switch.\<close>

fun elemToMap :: "Element \<Rightarrow> fault + document" where
  "elemToMap (Toggle text dflt) =
     Inr [(''type'', JStr ''toggle''), (''text'', JStr text), (''default'', JBool dflt)]"
| "elemToMap (Input text dflt placeholder) =
     Inr [(''type'', JStr ''input''), (''text'', JStr text), (''default'', JStr dflt),
          (''placeholder'', JStr placeholder)]"
| "elemToMap (Label text) =
     Inr [(''type'', JStr ''label''), (''text'', JStr text)]"
| "elemToMap (Slider text mn mx stepSize dflt) =
     Inr [(''type'', JStr ''slider''), (''text'', JStr text), (''min'', JNum mn),
          (''max'', JNum mx), (''step'', JNum stepSize), (''default'', JNum dflt)]"
| "elemToMap (Dropdown text options defaultIndex) =
     Inr [(''type'', JStr ''dropdown''), (''text'', JStr text), (''default'', JInt defaultIndex),
          (''options'', JStrs options)]"
| "elemToMap (StepSlider text options defaultIndex) =
     Inr [(''type'', JStr ''step_slider''), (''text'', JStr text),
          (''default'', JInt defaultIndex), (''steps'', JStrs options)]"
| "elemToMap OtherElement = Inl (Panic ''should never happen'')"

text \<open>\<^verbatim>\<open>strings.HasPrefix\<close>.\<close>

definition HasPrefix :: "string \<Rightarrow> string \<Rightarrow> bool" where
  "HasPrefix s pre = (length pre \<le> length s \<and> take (length pre) s = pre)"

text \<open>
  The loop over \<open>frm.Elements()\<close> in the \<open>form.Custom\<close> case: \<open>n\<close> is the slice collected so
  far; a panic of \<^const>\<open>elemToMap\<close> ends the loop and the call.
\<close>

fun customElements :: "jvalue list \<Rightarrow> Element list \<Rightarrow> fault + jvalue list" where
  "customElements n [] = Inr n"
| "customElements n (e # es) =
     (case elemToMap e of
        Inl p \<Rightarrow> Inl p
      | Inr v \<Rightarrow> customElements (n @ [JObj v]) es)"

text \<open>The body of the loop over \<open>frm.Buttons()\<close> in the \<open>form.Menu\<close> case.\<close>

definition menuButton :: "Button \<Rightarrow> document" where
  "menuButton button =
     (let v = [(''text'', JStr (Text button))] in
      if Image button \<noteq> [] then
        let buttonType =
              (if HasPrefix (Image button) ''http:'' \<or> HasPrefix (Image button) ''https:''
               then ''url'' else ''path'')
        in AList.update ''image''
             (JObj [(''type'', JStr buttonType), (''data'', JStr (Image button))]) v
      else v)"

fun menuButtons :: "jvalue list \<Rightarrow> Button list \<Rightarrow> jvalue list" where
  "menuButtons n [] = n"
| "menuButtons n (button # buttons) = menuButtons (n @ [JObj (menuButton button)]) buttons"

text \<open>
  The type switch of \<^verbatim>\<open>SendForm\<close> (the lines before \<open>json.Marshal\<close>): \<open>m\<close> starts empty and
  \<open>n\<close> nil. The methods of the form are called in the order of the source, and a panic of
  one ends the call. No case matches \<open>OtherForm\<close> or \<open>NilForm\<close> and the switch has no
  default, so \<open>m\<close> stays empty. \<open>buttons[0]\<close> and \<open>buttons[1]\<close> panic when the slice is too
  short; the compiled code checks the larger index first, so the panic names index 1.
\<close>

fun formToMap :: "Form \<Rightarrow> fault + document" where
  "formToMap (Custom title elements) =
     (case title of
        Inl p \<Rightarrow> Inl p
      | Inr t \<Rightarrow>
          let m = AList.update ''title'' (JStr t)
                    (AList.update ''type'' (JStr ''custom_form'') [])
          in case elements of
               Inl p \<Rightarrow> Inl p
             | Inr es \<Rightarrow>
                 (case customElements [] es of
                    Inl p \<Rightarrow> Inl p
                  | Inr n \<Rightarrow> Inr (AList.update ''content'' (JList n) m)))"
| "formToMap (Menu title body buttons) =
     (case title of
        Inl p \<Rightarrow> Inl p
      | Inr t \<Rightarrow>
          (case body of
             Inl p \<Rightarrow> Inl p
           | Inr b \<Rightarrow>
               let m = AList.update ''content'' (JStr b)
                         (AList.update ''title'' (JStr t)
                           (AList.update ''type'' (JStr ''form'') []))
               in case buttons of
                    Inl p \<Rightarrow> Inl p
                  | Inr bs \<Rightarrow> Inr (AList.update ''buttons'' (JList (menuButtons [] bs)) m)))"
| "formToMap (Modal title body buttons) =
     (case title of
        Inl p \<Rightarrow> Inl p
      | Inr t \<Rightarrow>
          (case body of
             Inl p \<Rightarrow> Inl p
           | Inr b \<Rightarrow>
               let m = AList.update ''content'' (JStr b)
                         (AList.update ''title'' (JStr t)
                           (AList.update ''type'' (JStr ''modal'') []))
               in case buttons of
                    Inl p \<Rightarrow> Inl p
                  | Inr bs \<Rightarrow>
                      if length bs = 0
                      then Inl (Panic ''runtime error: index out of range [1] with length 0'')
                      else if length bs = 1
                      then Inl (Panic ''runtime error: index out of range [1] with length 1'')
                      else Inr (AList.update ''button2'' (JStr (Text (bs ! 1)))
                                 (AList.update ''button1'' (JStr (Text (bs ! 0))) m))))"
| "formToMap OtherForm = Inr []"
| "formToMap NilForm = Inr []"

section \<open>Serialisation\<close>

text \<open>
  \<^verbatim>\<open>encoding/json\<close> is the Go library. What it does with the structure of a document is
  written out: the fields of an object in the order of their keys, between braces; a nil
  slice as \<open>null\<close>; a failure of any part fails the whole. How it writes a key and a leaf
  value (a string, a number, a boolean, a slice of strings) is a parameter.
\<close>

fun join :: "bytes list \<Rightarrow> bytes" where
  "join [] = []"
| "join [b] = b"
| "join (b # c # bs) = b @ '','' @ join (c # bs)"

fun Marshal :: "(string \<Rightarrow> bytes) \<Rightarrow> (jvalue \<Rightarrow> bytes option) \<Rightarrow> jvalue \<Rightarrow> bytes option"
  and MarshalFields ::
    "(string \<Rightarrow> bytes) \<Rightarrow> (jvalue \<Rightarrow> bytes option) \<Rightarrow> (string \<times> jvalue) list
       \<Rightarrow> (string \<times> bytes) list option"
  and MarshalItems ::
    "(string \<Rightarrow> bytes) \<Rightarrow> (jvalue \<Rightarrow> bytes option) \<Rightarrow> jvalue list \<Rightarrow> bytes list option"
where
  "Marshal key leaf (JObj kvs) =
     (case MarshalFields key leaf kvs of
        None \<Rightarrow> None
      | Some fs \<Rightarrow> Some (''{'' @ join (map snd (sort_key fst fs)) @ ''}''))"
| "Marshal key leaf (JList vs) =
     (if vs = [] then Some ''null''
      else case MarshalItems key leaf vs of
             None \<Rightarrow> None
           | Some bs \<Rightarrow> Some (''['' @ join bs @ '']''))"
| "Marshal key leaf (JStr s) = leaf (JStr s)"
| "Marshal key leaf (JBool b) = leaf (JBool b)"
| "Marshal key leaf (JNum x) = leaf (JNum x)"
| "Marshal key leaf (JInt i) = leaf (JInt i)"
| "Marshal key leaf (JStrs ss) = leaf (JStrs ss)"
| "MarshalFields key leaf [] = Some []"
| "MarshalFields key leaf (kv # kvs) =
     (case Marshal key leaf (snd kv) of
        None \<Rightarrow> None
      | Some b \<Rightarrow>
          (case MarshalFields key leaf kvs of
             None \<Rightarrow> None
           | Some fs \<Rightarrow> Some ((fst kv, key (fst kv) @ '':'' @ b) # fs)))"
| "MarshalItems key leaf [] = Some []"
| "MarshalItems key leaf (v # vs) =
     (case Marshal key leaf v of
        None \<Rightarrow> None
      | Some b \<Rightarrow>
          (case MarshalItems key leaf vs of
             None \<Rightarrow> None
           | Some bs \<Rightarrow> Some (b # bs)))"

section \<open>The session\<close>

record ModalFormRequest =
  FormID :: uint32
  FormData :: bytes

record ModalFormResponse =
  RespFormID :: uint32   \<comment> \<open>the field \<open>FormID\<close> of the response packet\<close>
  ResponseData :: bytes

text \<open>
  \<open>mu\<close> is the mutex: \<open>True\<close> while it is held. \<open>conn\<close> is the connection, as the packets
  that were handed to \<open>WritePacket\<close>, oldest first.
\<close>

record User =
  mu :: bool
  forms :: "(uint32 \<times> Form) list"
  conn :: "ModalFormRequest list"
  localFormId :: uint32
  remoteFormId :: uint32

text \<open>
  What the program takes from outside: the two writers of \<^verbatim>\<open>encoding/json\<close> and the
  \<open>SubmitJSON\<close> method of the forms, which panics (\<open>Inl\<close>) or returns an error
  (\<open>Inr None\<close> is the nil error). \<open>SubmitJSON\<close> is taken not to call back into the session.
\<close>

record externals =
  jsonKey :: "string \<Rightarrow> bytes"
  jsonLeaf :: "jvalue \<Rightarrow> bytes option"
  SubmitJSON :: "Form \<Rightarrow> bytes \<Rightarrow> fault + string option"

definition nullBytes :: bytes where
  "nullBytes = ''null'' @ [CHR 0x0A]"

definition NewUser :: "ModalFormRequest list \<Rightarrow> User" where
  "NewUser c = \<lparr>mu = False, forms = [], conn = c, localFormId = 0, remoteFormId = 0\<rparr>"

definition Conn :: "User \<Rightarrow> ModalFormRequest list" where
  "Conn u = conn u"

definition Remote :: "User \<Rightarrow> uint32" where
  "Remote u = remoteFormId u"

definition Local :: "User \<Rightarrow> uint32" where
  "Local u = localFormId u"

text \<open>
  \<^verbatim>\<open>HandleForm\<close> gives how the call ends (its boolean, a panic, or never), the session
  after it and the calls of \<open>SubmitJSON\<close> it made. \<open>Lock\<close> on a held mutex never returns.
  The path on which the identifier is not found returns without \<open>Unlock\<close>. The test \<open>!ok\<close>
  inside the \<open>if ...; ok\<close> block is never true. When the call reaches \<open>f.SubmitJSON\<close> the
  entry is already deleted and the mutex released: a panic there, of the method or because
  \<open>f\<close> is the nil interface, leaves the session so.
\<close>

definition HandleForm ::
  "externals \<Rightarrow> User \<Rightarrow> ModalFormResponse \<Rightarrow> (fault + bool) \<times> User \<times> (Form \<times> bytes) list"
where
  "HandleForm ext u pk =
     (if mu u then (Inl Blocked, u, [])
      else
        let u1 = u\<lparr>mu := True\<rparr> in
        case map_of (forms u1) (RespFormID pk) of
          Some f \<Rightarrow>
            let u2 = u1\<lparr>forms := AList.delete (RespFormID pk) (forms u1)\<rparr>;
                u3 = u2\<lparr>mu := False\<rparr>
            in if ResponseData pk = nullBytes \<or> length (ResponseData pk) = 0
               then (Inr True, u3, [])
               else if f = NilForm
               then (Inl (Panic
                       ''runtime error: invalid memory address or nil pointer dereference''),
                     u3, [])
               else (case SubmitJSON ext f (ResponseData pk) of
                       Inl p \<Rightarrow> (Inl p, u3, [(f, ResponseData pk)])
                     | Inr (Some err) \<Rightarrow> (Inr False, u3, [(f, ResponseData pk)])
                     | Inr None \<Rightarrow> (Inr True, u3, [(f, ResponseData pk)]))
        | None \<Rightarrow> (Inr False, u1, []))"

text \<open>
  \<^verbatim>\<open>SendForm\<close>. The order in which \<open>range\<close> visits a map is not fixed: \<open>c\<close> chooses the
  key it yields first, the one at position \<open>c mod len\<close> of the table. The error of
  \<open>json.Marshal\<close> is dropped, \<open>b\<close> is then nil; so is the result of \<open>WritePacket\<close>.
\<close>

definition SendForm :: "externals \<Rightarrow> nat \<Rightarrow> User \<Rightarrow> Form \<Rightarrow> fault + User" where
  "SendForm ext c u f =
     (case formToMap f of
        Inl p \<Rightarrow> Inl p
      | Inr m \<Rightarrow>
          let b = (case Marshal (jsonKey ext) (jsonLeaf ext) (JObj m) of
                     None \<Rightarrow> [] | Some bs \<Rightarrow> bs)
          in if mu u then Inl Blocked
             else
               let u1 = u\<lparr>mu := True\<rparr>;
                   u2 = (if length (forms u1) > 10
                         then u1\<lparr>forms :=
                                AList.delete (map fst (forms u1) ! (c mod length (forms u1)))
                                  (forms u1)\<rparr>
                         else u1);
                   u3 = u2\<lparr>localFormId := localFormId u2 + 1\<rparr>;
                   i = localFormId u3;
                   u4 = u3\<lparr>forms := AList.update i f (forms u3)\<rparr>;
                   u5 = u4\<lparr>mu := False\<rparr>
               in Inr (u5\<lparr>conn := conn u5 @ [\<lparr>FormID = i, FormData = b\<rparr>]\<rparr>))"

section \<open>Runs of a session\<close>

datatype call = Send nat Form | Handle ModalFormResponse

text \<open>
  One call on the session, and the session after it. A \<^const>\<open>SendForm\<close> that panics or
  never returns has changed nothing: it panics before it takes the mutex, and a blocked
  call is still waiting.
\<close>

fun step :: "externals \<Rightarrow> User \<Rightarrow> call \<Rightarrow> User" where
  "step ext u (Send c f) = (case SendForm ext c u f of Inl _ \<Rightarrow> u | Inr u' \<Rightarrow> u')"
| "step ext u (Handle pk) = fst (snd (HandleForm ext u pk))"

definition run :: "externals \<Rightarrow> call list \<Rightarrow> User \<Rightarrow> User" where
  "run ext cs u = foldl (step ext) u cs"

text \<open>Writers for examples: strings between quotes and booleans, nothing else.\<close>

definition quoted :: "string \<Rightarrow> bytes" where
  "quoted s = [CHR 0x22] @ s @ [CHR 0x22]"

fun plainLeaf :: "jvalue \<Rightarrow> bytes option" where
  "plainLeaf (JStr s) = Some (quoted s)"
| "plainLeaf (JBool b) = Some (if b then ''true'' else ''false'')"
| "plainLeaf v = None"

definition plain :: externals where
  "plain = \<lparr>jsonKey = quoted, jsonLeaf = plainLeaf, SubmitJSON = (\<lambda>f b. Inr None)\<rparr>"

text \<open>A menu with no buttons.\<close>

definition shopMenu :: Form where
  "shopMenu = Menu (Inr ''Shop'') (Inr ''Pick one'') (Inr [])"

text \<open>
  The zero value \<open>form.Menu{}\<close>: title and body are empty and \<open>Buttons()\<close> panics in the
  form package.
\<close>

definition zeroMenu :: Form where
  "zeroMenu = Menu (Inr []) (Inr []) (Inl (Panic ''reflect: New(nil)''))"

text \<open>A modal form with one button only.\<close>

definition oneButtonModal :: Form where
  "oneButtonModal = Modal (Inr ''Confirm'') (Inr ''Are you sure?'')
                      (Inr [\<lparr>Text = ''Yes'', Image = []\<rparr>])"

text \<open>A session with one menu pending, identifier 1.\<close>

definition pendingMenu :: User where
  "pendingMenu = run plain [Send 0 shopMenu] (NewUser [])"

text \<open>A modal form with its two buttons.\<close>

definition confirmModal :: Form where
  "confirmModal = Modal (Inr ''Confirm'') (Inr ''Are you sure?'')
                    (Inr [\<lparr>Text = ''Yes'', Image = []\<rparr>, \<lparr>Text = ''No'', Image = []\<rparr>])"

text \<open>A fresh session after eleven menus were sent and none was answered.\<close>

definition fullSession :: User where
  "fullSession = run plain (replicate 11 (Send 0 shopMenu)) (NewUser [])"

text \<open>
  A fresh session after \<open>2 ^ 32\<close> menus were sent and none was answered, where each
  eviction took the second entry of the table.
\<close>

definition wrapped :: User where
  "wrapped = run plain (replicate (2 ^ 32) (Send 1 shopMenu)) (NewUser [])"

section \<open>Facts about the encoder\<close>

lemma HasPrefix_prefix: "HasPrefix s pre \<longleftrightarrow> prefix pre s"
  by (auto simp: HasPrefix_def prefix_def) (metis append_take_drop_id)

lemma elemToMap_Inl:
  "elemToMap e = Inl p \<longleftrightarrow> e = OtherElement \<and> p = Panic ''should never happen''"
  by (cases e) auto

lemma customElements_Inl:
  "customElements n es = Inl p \<longleftrightarrow> OtherElement \<in> set es \<and> p = Panic ''should never happen''"
  by (induction es arbitrary: n) (auto simp: elemToMap_Inl split: sum.splits)

lemma customElements_isl: "isl (customElements n es) \<longleftrightarrow> OtherElement \<in> set es"
proof (cases "customElements n es")
  case (Inl p)
  then show ?thesis using customElements_Inl [of n es p] by simp
next
  case (Inr v)
  then show ?thesis using customElements_Inl [of n es "Panic ''should never happen''"] by simp
qed

lemma menuButtons_map: "menuButtons n bs = n @ map (\<lambda>b. JObj (menuButton b)) bs"
  by (induction bs arbitrary: n) auto

lemma isl_case_sum: "isl (case x of Inl p \<Rightarrow> Inl p | Inr n \<Rightarrow> Inr (g n)) = isl x"
  by (cases x) simp_all

lemma formToMap_isl:
  "isl (formToMap f) \<longleftrightarrow>
     (\<exists>t es. f = Custom t es
        \<and> (isl t \<or> isl es \<or> (\<exists>es'. es = Inr es' \<and> OtherElement \<in> set es')))
     \<or> (\<exists>t b bs. f = Menu t b bs \<and> (isl t \<or> isl b \<or> isl bs))
     \<or> (\<exists>t b bs. f = Modal t b bs
          \<and> (isl t \<or> isl b \<or> isl bs \<or> (\<exists>bs'. bs = Inr bs' \<and> length bs' < 2)))"
proof (cases f)
  case (Custom t es)
  then show ?thesis
    by (cases t; cases es) (simp_all add: Let_def isl_case_sum customElements_isl)
next
  case (Menu t b bs)
  then show ?thesis
    by (cases t; cases b; cases bs) (simp_all add: Let_def)
next
  case (Modal t b bs)
  then show ?thesis
    by (cases t; cases b; cases bs) (auto simp: Let_def less_2_cases_iff)
qed simp_all

section \<open>Facts about \<open>SendForm\<close>\<close>

text \<open>The session after a call that encodes and finds the mutex free.\<close>

lemma SendForm_free:
  assumes "\<not> mu u" and "formToMap f = Inr m"
  shows "SendForm ext c u f =
    Inr \<lparr>mu = False,
         forms = AList.update (localFormId u + 1) f
                   (if 10 < length (forms u)
                    then AList.delete (map fst (forms u) ! (c mod length (forms u))) (forms u)
                    else forms u),
         conn = conn u @ [\<lparr>FormID = localFormId u + 1,
                            FormData = (case Marshal (jsonKey ext) (jsonLeaf ext) (JObj m) of
                                          None \<Rightarrow> [] | Some bs \<Rightarrow> bs)\<rparr>],
         localFormId = localFormId u + 1,
         remoteFormId = remoteFormId u\<rparr>"
  using assms by (simp add: SendForm_def Let_def)

lemma SendForm_Inl:
  "SendForm ext c u f = Inl p \<longleftrightarrow>
     formToMap f = Inl p \<or> (\<not> isl (formToMap f) \<and> mu u \<and> p = Blocked)"
  by (cases "formToMap f") (auto simp: SendForm_def Let_def)

text \<open>The example forms, encoded.\<close>

lemma shopMenu_encodes: "\<not> isl (formToMap shopMenu)"
  by (simp add: shopMenu_def)

lemma confirmModal_encodes: "\<not> isl (formToMap confirmModal)"
  by (simp add: confirmModal_def)

section \<open>The element encoder\<close>

text \<open>
  Claim C7. For each of the six element types \<^const>\<open>elemToMap\<close> returns a map with exactly
  these keys and values: the type tag, the text, and for a toggle its default; for an input
  its default and placeholder; for a label nothing more; for a slider min, max, step and
  default; for a dropdown the default index and the options; for a step slider the default
  index and the options under the key \<open>steps\<close>. (Two maps are equal when they have the same
  keys and the same value at each.)
\<close>

theorem elemToMap_fields:
  "map_sum id map_of (elemToMap (Toggle text dflt)) =
     Inr [''type'' \<mapsto> JStr ''toggle'', ''text'' \<mapsto> JStr text, ''default'' \<mapsto> JBool dflt]
   \<and> map_sum id map_of (elemToMap (Input text sdflt placeholder)) =
     Inr [''type'' \<mapsto> JStr ''input'', ''text'' \<mapsto> JStr text, ''default'' \<mapsto> JStr sdflt,
          ''placeholder'' \<mapsto> JStr placeholder]
   \<and> map_sum id map_of (elemToMap (Label text)) =
     Inr [''type'' \<mapsto> JStr ''label'', ''text'' \<mapsto> JStr text]
   \<and> map_sum id map_of (elemToMap (Slider text mn mx stepSize ndflt)) =
     Inr [''type'' \<mapsto> JStr ''slider'', ''text'' \<mapsto> JStr text, ''min'' \<mapsto> JNum mn,
          ''max'' \<mapsto> JNum mx, ''step'' \<mapsto> JNum stepSize, ''default'' \<mapsto> JNum ndflt]
   \<and> map_sum id map_of (elemToMap (Dropdown text options defaultIndex)) =
     Inr [''type'' \<mapsto> JStr ''dropdown'', ''text'' \<mapsto> JStr text,
          ''default'' \<mapsto> JInt defaultIndex, ''options'' \<mapsto> JStrs options]
   \<and> map_sum id map_of (elemToMap (StepSlider text options defaultIndex)) =
     Inr [''type'' \<mapsto> JStr ''step_slider'', ''text'' \<mapsto> JStr text,
          ''default'' \<mapsto> JInt defaultIndex, ''steps'' \<mapsto> JStrs options]"
  by (simp add: fun_eq_iff)

section \<open>When encoding panics\<close>

text \<open>
  Claim C6, as stated, fails in both directions. A form of none of the three types does not
  make the encoder panic: the type switch of \<open>SendForm\<close> has no default case, the map stays
  empty and the call goes on. And forms of the three types can make it panic: the zero value
  \<open>form.Menu{}\<close>, whose \<open>Buttons()\<close> panics, and a modal form with one button, whose
  second button is read all the same.
\<close>

theorem encoder_panic_claim_fails:
  "formToMap OtherForm = Inr [] \<and> \<not> isl (SendForm plain 0 (NewUser []) OtherForm)
   \<and> isl (formToMap zeroMenu) \<and> isl (SendForm plain 0 (NewUser []) zeroMenu)
   \<and> isl (formToMap oneButtonModal) \<and> isl (SendForm plain 0 (NewUser []) oneButtonModal)"
  by (simp add: SendForm_def NewUser_def Let_def zeroMenu_def oneButtonModal_def)

text \<open>
  Claim C6, amended. \<^const>\<open>elemToMap\<close> panics exactly on an element of none of the six
  types. Encoding a form panics exactly in these cases: a method of the form package that
  the encoder calls on the form (\<open>Title\<close>, \<open>Body\<close>, \<open>Elements\<close>, \<open>Buttons\<close>) panics; the
  form is a custom form and an element of none of the six types is among its elements; the
  form is a modal form and \<open>Buttons\<close> returns fewer than two buttons. In particular a form
  of none of the three types does not panic. When the encoding panics, \<open>SendForm\<close> panics
  with it.
\<close>

theorem encoder_panics:
  "(isl (elemToMap e) \<longleftrightarrow> e = OtherElement)
   \<and> (isl (formToMap f) \<longleftrightarrow>
        (\<exists>t es. f = Custom t es
           \<and> (isl t \<or> isl es \<or> (\<exists>es'. es = Inr es' \<and> OtherElement \<in> set es')))
        \<or> (\<exists>t b bs. f = Menu t b bs \<and> (isl t \<or> isl b \<or> isl bs))
        \<or> (\<exists>t b bs. f = Modal t b bs
             \<and> (isl t \<or> isl b \<or> isl bs \<or> (\<exists>bs'. bs = Inr bs' \<and> length bs' < 2))))
   \<and> (\<forall>p. formToMap f = Inl p \<longrightarrow> SendForm ext c u f = Inl p)"
proof -
  have 1: "isl (elemToMap e) \<longleftrightarrow> e = OtherElement"
    by (cases e) auto
  have 3: "\<forall>p. formToMap f = Inl p \<longrightarrow> SendForm ext c u f = Inl p"
    by (simp add: SendForm_Inl)
  from 1 3 formToMap_isl [of f] show ?thesis by (simp only: simp_thms)
qed

theorem encoder_panics_witness:
  "isl (elemToMap OtherElement) \<and> isl (formToMap zeroMenu)
   \<and> formToMap zeroMenu = Inl (Panic ''reflect: New(nil)'')
   \<and> SendForm plain 0 (NewUser []) zeroMenu = Inl (Panic ''reflect: New(nil)'')"
proof -
  have h: "formToMap zeroMenu = Inl (Panic ''reflect: New(nil)'')"
    by (simp add: zeroMenu_def)
  from encoder_panics [of OtherElement zeroMenu plain 0 "NewUser []"] h
  show ?thesis by (simp add: zeroMenu_def)
qed

section \<open>A form of no recognized type\<close>

text \<open>
  Claim C10. When the mutex is free, \<open>SendForm\<close> of a form that is none of the three types
  (a value of another type, or the nil interface) does not panic: it returns, the packet it
  writes carries the next identifier and the payload \<open>{}\<close> (whatever the writers of the JSON
  library are), \<open>Local\<close> is that identifier, and the form is in the table under it.
\<close>

theorem SendForm_OtherForm:
  assumes "\<not> mu u" and "f = OtherForm \<or> f = NilForm"
  shows "\<exists>u'. SendForm ext c u f = Inr u'
           \<and> conn u' = conn u @ [\<lparr>FormID = localFormId u + 1, FormData = ''{}''\<rparr>]
           \<and> Local u' = localFormId u + 1
           \<and> map_of (forms u') (localFormId u + 1) = Some f"
proof -
  from assms(2) have "formToMap f = Inr []" by auto
  from SendForm_free [OF assms(1) this, of ext c] show ?thesis
    by (simp add: Local_def update_conv')
qed

theorem SendForm_OtherForm_witness:
  "\<not> mu (NewUser []) \<and>
   (\<exists>u'. SendForm plain 0 (NewUser []) OtherForm = Inr u'
         \<and> conn u' = conn (NewUser [])
                       @ [\<lparr>FormID = localFormId (NewUser []) + 1, FormData = ''{}''\<rparr>]
         \<and> Local u' = localFormId (NewUser []) + 1
         \<and> map_of (forms u') (localFormId (NewUser []) + 1) = Some OtherForm)"
proof -
  have h: "\<not> mu (NewUser [])" by (simp add: NewUser_def)
  have k: "OtherForm = OtherForm \<or> OtherForm = NilForm" by simp
  show ?thesis using h SendForm_OtherForm [OF h k, of plain 0] by simp
qed

section \<open>Facts about \<open>HandleForm\<close>\<close>

text \<open>The example session, evaluated.\<close>

lemma pendingMenu_fields:
  "mu pendingMenu = False \<and> forms pendingMenu = [(1, shopMenu)]
   \<and> localFormId pendingMenu = 1 \<and> remoteFormId pendingMenu = 0"
  by (simp add: pendingMenu_def run_def SendForm_def NewUser_def Let_def shopMenu_def)


text \<open>
  A call that finds the identifier: how it ends and which call of \<open>SubmitJSON\<close> it makes
  depend on the payload and the form, the session after it does not.
\<close>

lemma HandleForm_found:
  assumes "\<not> mu u" and "map_of (forms u) (RespFormID pk) = Some f"
  shows "HandleForm ext u pk =
    (if ResponseData pk = nullBytes \<or> ResponseData pk = [] then Inr True
     else if f = NilForm
     then Inl (Panic ''runtime error: invalid memory address or nil pointer dereference'')
     else map_sum id (\<lambda>err. err = None) (SubmitJSON ext f (ResponseData pk)),
     u\<lparr>forms := AList.delete (RespFormID pk) (forms u)\<rparr>,
     if ResponseData pk = nullBytes \<or> ResponseData pk = [] \<or> f = NilForm then []
     else [(f, ResponseData pk)])"
proof -
  have "u\<lparr>mu := True, forms := AList.delete (RespFormID pk) (forms u), mu := False\<rparr>
        = u\<lparr>forms := AList.delete (RespFormID pk) (forms u)\<rparr>"
    using assms(1) by simp
  then show ?thesis
    using assms by (simp add: HandleForm_def Let_def split: option.splits sum.splits)
qed

text \<open>What any call of \<open>HandleForm\<close> leaves of the session, however it ends.\<close>

lemma HandleForm_state:
  assumes "HandleForm ext u pk = (r, u', calls)"
  shows "localFormId u' = localFormId u \<and> remoteFormId u' = remoteFormId u
       \<and> conn u' = conn u
       \<and> (forms u' = forms u \<or> forms u' = AList.delete (RespFormID pk) (forms u))"
  using assms
  by (auto simp: HandleForm_def Let_def split: if_splits option.splits sum.splits)

section \<open>Facts about runs\<close>

lemma length_delete_less:
  "k \<in> fst ` set al \<Longrightarrow> length (AList.delete k al) < length al"
proof (induction al)
  case Nil
  then show ?case by simp
next
  case (Cons p al)
  show ?case
  proof (cases "fst p = k")
    case True
    then show ?thesis using length_delete_le [of k al] by simp
  next
    case False
    with Cons.prems have "k \<in> fst ` set al" by auto
    from Cons.IH [OF this] False show ?thesis by simp
  qed
qed

lemma length_delete_distinct:
  "distinct (map fst al) \<Longrightarrow> k \<in> fst ` set al \<Longrightarrow> Suc (length (AList.delete k al)) = length al"
  by (induction al) (auto simp: image_iff)

lemma length_update_le: "length (AList.update k v al) \<le> Suc (length al)"
  by (induction al) auto

lemma update_fresh: "k \<notin> fst ` set al \<Longrightarrow> AList.update k v al = al @ [(k, v)]"
  by (induction al) auto

lemma chosen_key: "al \<noteq> [] \<Longrightarrow> map fst al ! (c mod length al) \<in> fst ` set al"
  by (metis length_greater_0_conv length_map mod_less_divisor nth_mem set_map)

lemma SendForm_Inr:
  assumes "SendForm ext c u f = Inr u'"
  shows "\<not> mu u \<and> \<not> mu u' \<and> localFormId u' = localFormId u + 1
       \<and> remoteFormId u' = remoteFormId u
       \<and> forms u' = AList.update (localFormId u + 1) f
                      (if 10 < length (forms u)
                       then AList.delete (map fst (forms u) ! (c mod length (forms u))) (forms u)
                       else forms u)
       \<and> (\<exists>b. conn u' = conn u @ [\<lparr>FormID = localFormId u + 1, FormData = b\<rparr>])"
proof (cases "formToMap f")
  case (Inl p)
  with assms show ?thesis by (simp add: SendForm_def)
next
  case (Inr m)
  show ?thesis
  proof (cases "mu u")
    case True
    with assms Inr show ?thesis by (simp add: SendForm_def Let_def)
  next
    case False
    from assms SendForm_free [OF False Inr, of ext c] show ?thesis using False by auto
  qed
qed

text \<open>The table has one entry per key and at most eleven entries.\<close>

lemma step_table:
  assumes "distinct (map fst (forms u))" and "length (forms u) \<le> 11"
  shows "distinct (map fst (forms (step ext u x))) \<and> length (forms (step ext u x)) \<le> 11"
proof (cases x)
  case (Send c f)
  show ?thesis
  proof (cases "SendForm ext c u f")
    case (Inl p)
    with Send assms show ?thesis by simp
  next
    case (Inr u')
    let ?k = "map fst (forms u) ! (c mod length (forms u))"
    let ?al = "if 10 < length (forms u) then AList.delete ?k (forms u) else forms u"
    have f: "forms u' = AList.update (localFormId u + 1) f ?al"
      using SendForm_Inr [OF Inr] by simp
    have d: "distinct (map fst ?al)"
      using assms(1) by (simp add: distinct_delete)
    have "length ?al \<le> 10"
    proof (cases "10 < length (forms u)")
      case True
      then have "forms u \<noteq> []" by auto
      from length_delete_less [OF chosen_key [OF this, of c]] assms(2) True
      show ?thesis by simp
    next
      case False
      then show ?thesis by simp
    qed
    then have "length (forms u') \<le> 11"
      using length_update_le [of "localFormId u + 1" f ?al] f by simp
    with d f Inr Send show ?thesis by (simp add: distinct_update)
  qed
next
  case (Handle pk)
  obtain r u' calls where t: "HandleForm ext u pk = (r, u', calls)"
    by (cases "HandleForm ext u pk")
  from HandleForm_state [OF t]
  have "forms u' = forms u \<or> forms u' = AList.delete (RespFormID pk) (forms u)" by simp
  then have "distinct (map fst (forms u')) \<and> length (forms u') \<le> 11"
    using assms length_delete_le [of "RespFormID pk" "forms u"]
    by (auto simp: distinct_delete)
  with Handle t show ?thesis by simp
qed

lemma run_snoc: "run ext (cs @ [x]) u = step ext (run ext cs u) x"
  by (simp add: run_def)

lemma run_table:
  "distinct (map fst (forms (run ext cs (NewUser c0))))
   \<and> length (forms (run ext cs (NewUser c0))) \<le> 11"
proof (induction cs rule: rev_induct)
  case Nil
  show ?case by (simp add: run_def NewUser_def)
next
  case (snoc x cs)
  then show ?case using step_table [of "run ext cs (NewUser c0)" ext x]
    by (simp add: run_snoc)
qed


text \<open>
  Identifiers: the counter is the number of packets the session has written, and every key
  of the table is one of the identifiers written so far.
\<close>

lemma keys_delete_subset: "fst ` set (AList.delete k al) \<subseteq> fst ` set al"
  by (induction al) auto

lemma step_ids:
  assumes "length c0 \<le> length (conn u)"
    and "localFormId u = of_nat (length (conn u) - length c0)"
    and "fst ` set (forms u) \<subseteq> of_nat ` {1..length (conn u) - length c0}"
  shows "length c0 \<le> length (conn (step ext u x))
       \<and> localFormId (step ext u x) = of_nat (length (conn (step ext u x)) - length c0)
       \<and> fst ` set (forms (step ext u x))
            \<subseteq> of_nat ` {1..length (conn (step ext u x)) - length c0}"
proof (cases x)
  case (Send c f)
  show ?thesis
  proof (cases "SendForm ext c u f")
    case (Inl p)
    with Send assms show ?thesis by simp
  next
    case (Inr u')
    let ?n = "length (conn u) - length c0"
    let ?al = "if 10 < length (forms u)
               then AList.delete (map fst (forms u) ! (c mod length (forms u))) (forms u)
               else forms u"
    from SendForm_Inr [OF Inr] obtain b where
      c: "conn u' = conn u @ [\<lparr>FormID = localFormId u + 1, FormData = b\<rparr>]" and
      l: "localFormId u' = localFormId u + 1" and
      f: "forms u' = AList.update (localFormId u + 1) f ?al"
      by blast
    define K where "K = localFormId u + 1"
    have n: "length (conn u') - length c0 = Suc ?n"
      using c assms(1) by simp
    have K: "K = of_nat (Suc ?n)"
      using assms(2) by (simp add: K_def)
    have l': "localFormId u' = of_nat (Suc ?n)"
      using l K by (simp only: K_def)
    have "fst ` set ?al \<subseteq> fst ` set (forms u)"
      by (simp add: keys_delete_subset)
    with assms(3) have sub: "fst ` set ?al \<subseteq> of_nat ` {1..?n}"
      by (rule subset_trans [rotated])
    have "forms u' = AList.update K f ?al"
      using f by (simp only: K_def)
    then have "fst ` set (forms u') = insert K (fst ` set ?al)"
      by (simp add: dom_update)
    also have "\<dots> \<subseteq> insert K (of_nat ` {1..?n})"
      using sub by blast
    also have "\<dots> \<subseteq> of_nat ` {1..Suc ?n}"
      unfolding K by (intro insert_subsetI imageI image_mono) auto
    finally have "fst ` set (forms u') \<subseteq> of_nat ` {1..Suc ?n}" .
    with n l' c assms(1) Send Inr show ?thesis by simp
  qed
next
  case (Handle pk)
  obtain r u' calls where t: "HandleForm ext u pk = (r, u', calls)"
    by (cases "HandleForm ext u pk")
  from HandleForm_state [OF t]
  have c: "conn u' = conn u" and l: "localFormId u' = localFormId u"
    and alt: "forms u' = forms u \<or> forms u' = AList.delete (RespFormID pk) (forms u)"
    by simp_all
  have s: "fst ` set (forms u') \<subseteq> fst ` set (forms u)"
  proof (cases "forms u' = forms u")
    case True
    then show ?thesis by simp
  next
    case False
    with alt have "forms u' = AList.delete (RespFormID pk) (forms u)" by simp
    then show ?thesis by (simp only: keys_delete_subset)
  qed
  from s assms(3)
  have "fst ` set (forms u') \<subseteq> of_nat ` {1..length (conn u) - length c0}"
    by (rule subset_trans)
  with c l assms(1,2) have "length c0 \<le> length (conn u')
     \<and> localFormId u' = of_nat (length (conn u') - length c0)
     \<and> fst ` set (forms u') \<subseteq> of_nat ` {1..length (conn u') - length c0}"
    by simp
  with Handle t show ?thesis by simp
qed

lemma run_ids:
  "length c0 \<le> length (conn (run ext cs (NewUser c0)))
   \<and> localFormId (run ext cs (NewUser c0))
       = of_nat (length (conn (run ext cs (NewUser c0))) - length c0)
   \<and> fst ` set (forms (run ext cs (NewUser c0)))
       \<subseteq> of_nat ` {1..length (conn (run ext cs (NewUser c0))) - length c0}"
proof (induction cs rule: rev_induct)
  case Nil
  show ?case by (simp add: run_def NewUser_def)
next
  case (snoc x cs)
  then show ?case using step_ids [of c0 "run ext cs (NewUser c0)" ext x]
    by (simp add: run_snoc)
qed

lemma next_id_fresh:
  assumes "n < 2 ^ 32 - 1"
  shows "(of_nat (Suc n) :: uint32) \<notin> of_nat ` {1..n}"
proof
  assume "(of_nat (Suc n) :: uint32) \<in> of_nat ` {1..n}"
  then obtain j where j: "1 \<le> j" "j \<le> n" "(of_nat (Suc n) :: uint32) = of_nat j" by auto
  have a: "unat (of_nat (Suc n) :: uint32) = Suc n mod 2 ^ 32"
    by (simp only: unat_of_nat) simp
  have b: "unat (of_nat j :: uint32) = j mod 2 ^ 32"
    by (simp only: unat_of_nat) simp
  from j(3) a b have "Suc n mod 2 ^ 32 = j mod 2 ^ 32" by (simp only:)
  with assms j(2) show False by simp
qed

lemma unat_next_id:
  assumes "n < 2 ^ 32 - 1"
  shows "unat ((of_nat n :: uint32) + 1) = Suc (unat (of_nat n :: uint32))"
proof -
  have "(of_nat n :: uint32) + 1 = of_nat (Suc n)" by simp
  then have "unat ((of_nat n :: uint32) + 1) = Suc n mod 2 ^ 32" by (simp only: unat_of_nat) simp
  moreover have "unat (of_nat n :: uint32) = n mod 2 ^ 32" by (simp add: unat_of_nat)
  ultimately show ?thesis using assms by simp
qed

lemma run_sends:
  assumes "\<forall>p \<in> set ps. \<not> isl (formToMap (snd p))" and "length ps \<le> 11"
  shows "\<not> mu (run ext (map (case_prod Send) ps) (NewUser c0))
       \<and> forms (run ext (map (case_prod Send) ps) (NewUser c0))
           = zip (map of_nat [1..<Suc (length ps)]) (map snd ps)
       \<and> length (conn (run ext (map (case_prod Send) ps) (NewUser c0))) = length c0 + length ps"
  using assms
proof (induction ps rule: rev_induct)
  case Nil
  show ?case by (simp add: run_def NewUser_def)
next
  case (snoc p ps)
  define u where "u = run ext (map (case_prod Send) ps) (NewUser c0)"
  define n where "n = length ps"
  define K :: uint32 where "K = of_nat (Suc n)"
  obtain c f where p: "p = (c, f)" by (cases p)
  from snoc.prems have "\<not> isl (formToMap f)" by (simp add: p)
  then obtain m where m: "formToMap f = Inr m" by (cases "formToMap f") auto
  from snoc.prems have n10: "n \<le> 10" by (simp add: n_def)
  from snoc.IH snoc.prems
  have free: "\<not> mu u"
    and tab: "forms u = zip (map of_nat [1..<Suc n]) (map snd ps)"
    and cn: "length (conn u) = length c0 + n"
    by (simp_all add: u_def n_def)
  have len: "length (forms u) = n"
    by (simp only: tab length_zip length_map length_upt n_def)
  from run_ids [of c0 ext "map (case_prod Send) ps"] cn
  have lid: "localFormId u = of_nat n" and keys: "fst ` set (forms u) \<subseteq> of_nat ` {1..n}"
    by (simp_all add: u_def)
  have K: "localFormId u + 1 = K" by (simp add: lid K_def)
  have "K \<notin> of_nat ` {1..n}"
    unfolding K_def using n10 by (intro next_id_fresh) simp
  with keys have fresh: "K \<notin> fst ` set (forms u)" by blast
  have send: "SendForm ext c u f =
      Inr \<lparr>mu = False, forms = forms u @ [(K, f)],
           conn = conn u @ [\<lparr>FormID = K,
                             FormData = (case Marshal (jsonKey ext) (jsonLeaf ext) (JObj m) of
                                           None \<Rightarrow> [] | Some bs \<Rightarrow> bs)\<rparr>],
           localFormId = K, remoteFormId = remoteFormId u\<rparr>"
    using SendForm_free [OF free m, of ext c] len n10 K update_fresh [OF fresh, of f]
    by simp
  have z: "zip (map of_nat [1..<Suc (Suc n)]) (map snd (ps @ [p]))
             = forms u @ [(K, f)]"
  proof -
    let ?xs = "map of_nat [1..<Suc n] :: uint32 list"
    have a: "map of_nat [1..<Suc (Suc n)] = ?xs @ [K]"
      unfolding K_def by (subst upt_Suc_append) simp_all
    have b: "map snd (ps @ [p]) = map snd ps @ [f]" by (simp add: p)
    have l: "length ?xs = length (map snd ps)"
      by (simp only: length_map length_upt n_def)
    have "zip (?xs @ [K]) (map snd ps @ [f]) = zip ?xs (map snd ps) @ zip [K] [f]"
      by (rule zip_append [OF l])
    then show ?thesis by (simp only: a b tab zip_Cons_Cons zip_Nil)
  qed
  have r: "run ext (map (case_prod Send) (ps @ [p])) (NewUser c0) = step ext u (Send c f)"
    by (simp add: run_snoc u_def p)
  show ?case
    unfolding r using send z cn by (simp add: n_def)
qed

lemma fullSession_fields:
  "mu fullSession = False
   \<and> forms fullSession = zip [1, 2, 3, 4, 5, 6, 7, 8, 9, 10, 11]
                            (replicate 11 shopMenu)
   \<and> localFormId fullSession = 11"
proof -
  let ?ps = "replicate 11 (0::nat, shopMenu)"
  have r: "replicate 11 (Send 0 shopMenu) = map (case_prod Send) ?ps"
    by simp
  have "[1..<Suc 11] = [1, 2, 3, 4, 5, 6, 7, 8, 9, 10, 11]"
    by (simp add: upt_rec)
  then show ?thesis
    using run_sends [of ?ps plain "[]"] run_ids [of "[]" plain "map (case_prod Send) ?ps"]
    unfolding fullSession_def r by (simp add: shopMenu_encodes)
qed

text \<open>A run that always evicts the second entry keeps the first one.\<close>

lemma keep_first:
  assumes "formToMap f = Inr m"
  shows "\<not> mu (run ext (replicate (Suc n) (Send 1 f)) (NewUser c0))
       \<and> distinct (map fst (forms (run ext (replicate (Suc n) (Send 1 f)) (NewUser c0))))
       \<and> localFormId (run ext (replicate (Suc n) (Send 1 f)) (NewUser c0)) = of_nat (Suc n)
       \<and> (\<exists>rest. forms (run ext (replicate (Suc n) (Send 1 f)) (NewUser c0)) = (1, f) # rest)"
proof (induction n)
  case 0
  have "\<not> mu (NewUser c0)" by (simp add: NewUser_def)
  from SendForm_free [OF this assms, of ext 1]
  show ?case by (simp add: run_def NewUser_def)
next
  case (Suc n)
  define u where "u = run ext (replicate (Suc n) (Send 1 f)) (NewUser c0)"
  from Suc obtain rest where free: "\<not> mu u" and d: "distinct (map fst (forms u))"
    and l: "localFormId u = of_nat (Suc n)" and h: "forms u = (1, f) # rest"
    unfolding u_def by blast
  define al where "al = (if 10 < length (forms u)
                         then AList.delete (map fst (forms u) ! (1 mod length (forms u))) (forms u)
                         else forms u)"
  have "\<exists>rest'. al = (1, f) # rest'"
  proof (cases "10 < length (forms u)")
    case True
    then obtain q rest2 where r: "rest = q # rest2" using h by (cases rest) auto
    with d h have "fst q \<noteq> 1" by auto
    with True h r show ?thesis by (simp add: al_def)
  next
    case False
    with h show ?thesis by (simp add: al_def)
  qed
  then obtain rest' where al: "al = (1, f) # rest'" by blast
  have dal: "distinct (map fst al)"
    using d by (simp add: al_def distinct_delete)
  from SendForm_free [OF free assms, of ext 1]
  obtain u' where s: "SendForm ext 1 u f = Inr u'" and free': "\<not> mu u'"
    and l': "localFormId u' = localFormId u + 1"
    and t: "forms u' = AList.update (localFormId u + 1) f al"
    by (simp add: al_def)
  have "\<exists>rest''. forms u' = (1, f) # rest''"
    unfolding t al by simp
  moreover have "distinct (map fst (forms u'))"
    unfolding t using dal by (rule distinct_update)
  moreover have "localFormId u' = of_nat (Suc (Suc n))"
    using l l' by simp
  moreover have "run ext (replicate (Suc (Suc n)) (Send 1 f)) (NewUser c0) = u'"
    using s by (simp only: replicate_Suc [of "Suc n"] replicate_append_same [symmetric]
                  run_snoc u_def [symmetric] step.simps sum.case)
  ultimately show ?case using free' by simp
qed

lemma wrapped_fields:
  "mu wrapped = False \<and> localFormId wrapped = 0
   \<and> map_of (forms wrapped) 1 = Some shopMenu"
proof -
  have e: "formToMap shopMenu =
             Inr (AList.update ''buttons'' (JList [])
                   [(''type'', JStr ''form''), (''title'', JStr ''Shop''),
                    (''content'', JStr ''Pick one'')])"
    by (simp add: shopMenu_def)
  have n: "(2::nat) ^ 32 = Suc (2 ^ 32 - 1)" by simp
  have w: "wrapped = run plain (replicate (Suc (2 ^ 32 - 1)) (Send 1 shopMenu))
                       (NewUser [])"
    unfolding wrapped_def by (subst n) (rule refl)
  have z: "(of_nat (Suc (2 ^ 32 - 1)) :: uint32) = 0"
    by simp
  from keep_first [OF e, of plain "2 ^ 32 - 1" "[]"] show ?thesis
    unfolding w [symmetric] z by auto
qed

section \<open>Responses\<close>



text \<open>
  Claim C4. When the identifier of the packet is in the table (and the mutex is free) and
  the payload is empty or is the five bytes \<open>null\<close> and a line feed, \<open>HandleForm\<close> returns
  true, invokes no \<open>SubmitJSON\<close>, and has removed that entry and nothing else from the
  session.
\<close>

theorem HandleForm_cancel:
  assumes "\<not> mu u" and "map_of (forms u) (RespFormID pk) = Some f"
    and "ResponseData pk = [] \<or> ResponseData pk = [CHR ''n'', CHR ''u'', CHR ''l'', CHR ''l'', CHR 0x0A]"
  shows "\<exists>u'. HandleForm ext u pk = (Inr True, u', [])
             \<and> u' = u\<lparr>forms := AList.delete (RespFormID pk) (forms u)\<rparr>
             \<and> map_of (forms u') = (map_of (forms u))(RespFormID pk := None)
             \<and> \<not> mu u' \<and> localFormId u' = localFormId u \<and> remoteFormId u' = remoteFormId u"
  using assms HandleForm_found [OF assms(1,2), of ext]
  by (auto simp: nullBytes_def delete_conv')

theorem HandleForm_cancel_witness:
  "\<not> mu pendingMenu
   \<and> map_of (forms pendingMenu) 1 = Some shopMenu
   \<and> (\<exists>u'. HandleForm plain pendingMenu
              \<lparr>RespFormID = 1, ResponseData = [CHR ''n'', CHR ''u'', CHR ''l'', CHR ''l'', CHR 0x0A]\<rparr>
            = (Inr True, u', [])
          \<and> u' = pendingMenu\<lparr>forms := []\<rparr>
          \<and> map_of (forms u') = (map_of (forms pendingMenu))(1 := None)
          \<and> \<not> mu u' \<and> localFormId u' = localFormId pendingMenu
          \<and> remoteFormId u' = remoteFormId pendingMenu)"
proof -
  let ?pk = "\<lparr>RespFormID = 1, ResponseData = [CHR ''n'', CHR ''u'', CHR ''l'', CHR ''l'', CHR 0x0A]\<rparr>"
  have h1: "\<not> mu pendingMenu" by (simp add: pendingMenu_fields)
  have h2: "map_of (forms pendingMenu) (RespFormID ?pk) = Some shopMenu"
    by (simp add: pendingMenu_fields)
  have h3: "ResponseData ?pk = [] \<or> ResponseData ?pk = [CHR ''n'', CHR ''u'', CHR ''l'', CHR ''l'', CHR 0x0A]"
    by simp
  show ?thesis using h1 h2 HandleForm_cancel [OF h1 h2 h3, of plain] by (simp add: pendingMenu_fields)
qed

text \<open>
  Claim C3. On a fresh session a response with an identifier that was never issued makes
  \<open>HandleForm\<close> return false with the table and the counters as they were, but with the
  mutex still held: the path that does not find the identifier has no \<open>Unlock\<close>. The next
  \<open>HandleForm\<close> with that identifier does not return false, it never returns; nor does the
  next \<open>SendForm\<close>.
\<close>

theorem HandleForm_unknown_keeps_mutex:
  "HandleForm plain (NewUser []) \<lparr>RespFormID = 7, ResponseData = ''0''\<rparr>
     = (Inr False, (NewUser [])\<lparr>mu := True\<rparr>, [])
   \<and> HandleForm plain ((NewUser [])\<lparr>mu := True\<rparr>) \<lparr>RespFormID = 7, ResponseData = ''0''\<rparr>
     = (Inl Blocked, (NewUser [])\<lparr>mu := True\<rparr>, [])
   \<and> SendForm plain 0 ((NewUser [])\<lparr>mu := True\<rparr>) shopMenu
     = Inl Blocked"
  by (simp add: HandleForm_def SendForm_def NewUser_def Let_def shopMenu_def)

section \<open>The buttons of a menu\<close>

text \<open>
  Claim C8. Encoding a menu (whose methods return) gives one object per button that
  \<open>Buttons()\<close> returns, in order. The object of a button
  has the text of the button; it has no \<open>image\<close> field exactly when the image reference of
  the button is empty; otherwise its \<open>image\<close> is an object with exactly the fields \<open>type\<close>
  and \<open>data\<close>, where \<open>data\<close> is the reference and \<open>type\<close> is \<open>url\<close> exactly when the
  reference starts with \<open>http:\<close> or \<open>https:\<close>, and \<open>path\<close> otherwise.
\<close>

theorem Menu_buttons:
  assumes "i < length buttons"
  shows "\<exists>m items v.
           formToMap (Menu (Inr title) (Inr body) (Inr buttons)) = Inr m
         \<and> map_of m ''buttons'' = Some (JList items)
         \<and> length items = length buttons
         \<and> items ! i = JObj v
         \<and> map_of v ''text'' = Some (JStr (Text (buttons ! i)))
         \<and> (map_of v ''image'' = None \<longleftrightarrow> Image (buttons ! i) = [])
         \<and> (Image (buttons ! i) \<noteq> [] \<longrightarrow>
              (\<exists>img ty. map_of v ''image'' = Some (JObj img)
                 \<and> map_of img = [''type'' \<mapsto> JStr ty, ''data'' \<mapsto> JStr (Image (buttons ! i))]
                 \<and> (ty = ''url'' \<longleftrightarrow> prefix ''http:'' (Image (buttons ! i))
                                     \<or> prefix ''https:'' (Image (buttons ! i)))
                 \<and> (ty = ''url'' \<or> ty = ''path'')))"
  using assms
  by (auto simp: Let_def menuButtons_map menuButton_def HasPrefix_prefix update_conv' fun_eq_iff)

theorem Menu_buttons_witness:
  "(0::nat) < length [\<lparr>Text = ''Buy'', Image = ''https://example.org/buy.png''\<rparr>,
                     \<lparr>Text = ''Sell'', Image = ''textures/items/emerald''\<rparr>,
                     \<lparr>Text = ''Leave'', Image = []\<rparr>]
   \<and> (\<exists>m items.
         formToMap (Menu (Inr ''Shop'') (Inr ''Pick one'')
            (Inr [\<lparr>Text = ''Buy'', Image = ''https://example.org/buy.png''\<rparr>,
                  \<lparr>Text = ''Sell'', Image = ''textures/items/emerald''\<rparr>,
                  \<lparr>Text = ''Leave'', Image = []\<rparr>])) = Inr m
       \<and> map_of m ''buttons'' = Some (JList items)
       \<and> length items = 3
       \<and> items ! 0 = JObj [(''text'', JStr ''Buy''),
                            (''image'', JObj [(''type'', JStr ''url''),
                                              (''data'', JStr ''https://example.org/buy.png'')])])"
  using Menu_buttons [of 0 "[\<lparr>Text = ''Buy'', Image = ''https://example.org/buy.png''\<rparr>,
                     \<lparr>Text = ''Sell'', Image = ''textures/items/emerald''\<rparr>,
                     \<lparr>Text = ''Leave'', Image = []\<rparr>]" "''Shop''" "''Pick one''"]
  by (simp add: menuButton_def HasPrefix_def)

section \<open>The size of the table\<close>

text \<open>
  Claim C9. After any sequence of calls of \<open>SendForm\<close> and \<open>HandleForm\<close> on a fresh
  session the table has one entry per key and at most eleven entries; and eleven are
  reached, by eleven calls of \<open>SendForm\<close>.
\<close>

theorem table_bound:
  "distinct (map fst (forms (run ext cs (NewUser c0))))
   \<and> length (forms (run ext cs (NewUser c0))) \<le> 11
   \<and> length (forms (run ext (replicate 11 (Send 0 shopMenu)) (NewUser c0))) = 11"
proof -
  have "replicate 11 (Send 0 shopMenu) = map (case_prod Send) (replicate 11 (0, shopMenu))"
    by simp
  then have "length (forms (run ext (replicate 11 (Send 0 shopMenu)) (NewUser c0))) = 11"
    using run_sends [of "replicate 11 (0, shopMenu)" ext c0] by (simp add: shopMenu_encodes)
  with run_table [of ext cs c0] show ?thesis by simp
qed

text \<open>
  Claim C1, as stated, fails: eleven calls of \<open>SendForm\<close> on a fresh session, with no
  response handled, do not leave ten entries in the table.
\<close>

theorem eleven_sends_eleven_entries:
  "length (forms (run plain (replicate 11 (Send 0 shopMenu)) (NewUser [])))
     \<noteq> 10"
  using fullSession_fields by (simp add: fullSession_def)

text \<open>
  Claim C1, amended. Eleven calls of \<open>SendForm\<close> on a fresh session (none of which panics)
  leave exactly the eleven forms in the table, under the identifiers 1 to 11: none is
  evicted. A call of \<open>SendForm\<close> that finds the mutex free evicts before it inserts exactly
  when the table already holds more than ten entries; it then removes one entry whose key
  is in the table, and no other.
\<close>

theorem SendForm_capacity:
  "(length ps = 11 \<and> (\<forall>p \<in> set ps. \<not> isl (formToMap (snd p)))
      \<longrightarrow> forms (run ext (map (case_prod Send) ps) (NewUser c0))
            = zip (map of_nat [1..<12]) (map snd ps))
   \<and> (\<not> mu u \<and> distinct (map fst (forms u)) \<and> \<not> isl (formToMap f)
      \<longrightarrow> (\<exists>u'. SendForm ext c u f = Inr u'
             \<and> (if 10 < length (forms u)
                then \<exists>k \<in> fst ` set (forms u).
                       forms u' = AList.update (localFormId u + 1) f (AList.delete k (forms u))
                     \<and> Suc (length (AList.delete k (forms u))) = length (forms u)
                else forms u' = AList.update (localFormId u + 1) f (forms u))))"
proof (intro conjI impI)
  assume "length ps = 11 \<and> (\<forall>p \<in> set ps. \<not> isl (formToMap (snd p)))"
  then show "forms (run ext (map (case_prod Send) ps) (NewUser c0))
            = zip (map of_nat [1..<12]) (map snd ps)"
    using run_sends [of ps ext c0] by simp
next
  assume a: "\<not> mu u \<and> distinct (map fst (forms u)) \<and> \<not> isl (formToMap f)"
  then obtain m where m: "formToMap f = Inr m" by (cases "formToMap f") auto
  from a have free: "\<not> mu u" and d: "distinct (map fst (forms u))" by simp_all
  show "\<exists>u'. SendForm ext c u f = Inr u'
             \<and> (if 10 < length (forms u)
                then \<exists>k \<in> fst ` set (forms u).
                       forms u' = AList.update (localFormId u + 1) f (AList.delete k (forms u))
                     \<and> Suc (length (AList.delete k (forms u))) = length (forms u)
                else forms u' = AList.update (localFormId u + 1) f (forms u))"
  proof (cases "10 < length (forms u)")
    case True
    then have ne: "forms u \<noteq> []" by auto
    let ?k = "map fst (forms u) ! (c mod length (forms u))"
    have k: "?k \<in> fst ` set (forms u)" by (rule chosen_key [OF ne])
    from SendForm_free [OF free m, of ext c] True
    obtain u' where s: "SendForm ext c u f = Inr u'"
      and t: "forms u' = AList.update (localFormId u + 1) f (AList.delete ?k (forms u))"
      by simp
    from t k length_delete_distinct [OF d k]
    have "\<exists>k \<in> fst ` set (forms u).
            forms u' = AList.update (localFormId u + 1) f (AList.delete k (forms u))
          \<and> Suc (length (AList.delete k (forms u))) = length (forms u)"
      by blast
    with s True show ?thesis by (intro exI [of _ u']) (simp only: if_True simp_thms)
  next
    case False
    with SendForm_free [OF free m, of ext c] show ?thesis by simp
  qed
qed

theorem SendForm_capacity_witness:
  "length (replicate 11 (0::nat, shopMenu)) = 11
   \<and> forms (run plain (replicate 11 (Send 0 shopMenu)) (NewUser []))
       = zip [1, 2, 3, 4, 5, 6, 7, 8, 9, 10, 11] (replicate 11 shopMenu)
   \<and> \<not> mu fullSession \<and> distinct (map fst (forms fullSession))
   \<and> 10 < length (forms fullSession)
   \<and> (\<exists>u'. SendForm plain 3 fullSession confirmModal = Inr u'
           \<and> (\<exists>k \<in> fst ` set (forms fullSession).
                  forms u' = AList.update (localFormId fullSession + 1) confirmModal
                               (AList.delete k (forms fullSession))
                \<and> Suc (length (AList.delete k (forms fullSession)))
                    = length (forms fullSession)))"
proof -
  let ?ps = "replicate 11 (0::nat, shopMenu)"
  note T = SendForm_capacity [of ?ps plain "[]" fullSession confirmModal 3]
  have h1: "length ?ps = 11 \<and> (\<forall>p \<in> set ?ps. \<not> isl (formToMap (snd p)))"
    by (simp add: shopMenu_encodes)
  have h2: "\<not> mu fullSession \<and> distinct (map fst (forms fullSession))
            \<and> \<not> isl (formToMap confirmModal)"
    by (simp add: fullSession_fields confirmModal_def)
  have h3: "10 < length (forms fullSession)" by (simp add: fullSession_fields)
  from T h1 have "forms (run plain (map (case_prod Send) ?ps) (NewUser []))
                    = zip (map of_nat [1..<12]) (map snd ?ps)" by blast
  then have A: "forms (run plain (replicate 11 (Send 0 shopMenu)) (NewUser []))
       = zip [1, 2, 3, 4, 5, 6, 7, 8, 9, 10, 11] (replicate 11 shopMenu)"
    by (simp add: upt_rec)
  from T h2 have "\<exists>u'. SendForm plain 3 fullSession confirmModal = Inr u'
             \<and> (if 10 < length (forms fullSession)
                then \<exists>k \<in> fst ` set (forms fullSession).
                       forms u' = AList.update (localFormId fullSession + 1) confirmModal
                                    (AList.delete k (forms fullSession))
                     \<and> Suc (length (AList.delete k (forms fullSession)))
                         = length (forms fullSession)
                else forms u' = AList.update (localFormId fullSession + 1) confirmModal
                                  (forms fullSession))" by blast
  with h3 have B: "\<exists>u'. SendForm plain 3 fullSession confirmModal = Inr u'
           \<and> (\<exists>k \<in> fst ` set (forms fullSession).
                  forms u' = AList.update (localFormId fullSession + 1) confirmModal
                               (AList.delete k (forms fullSession))
                \<and> Suc (length (AList.delete k (forms fullSession)))
                    = length (forms fullSession))"
    by (simp only: if_True)
  from h1 h2 h3 A B show ?thesis by (simp only: simp_thms)
qed

section \<open>Identifiers\<close>

text \<open>
  Claim C5, as stated, fails once the counter has wrapped. After \<open>2 ^ 32\<close> calls of
  \<open>SendForm\<close> in which the first entry was never evicted, the first menu is still pending
  under identifier 1; the next call is given identifier 1 again and its form replaces the
  menu.
\<close>

theorem identifier_repeated_after_wrap:
  "map_of (forms wrapped) 1 = Some shopMenu
   \<and> \<not> isl (SendForm plain 1 wrapped confirmModal)
   \<and> Local (projr (SendForm plain 1 wrapped confirmModal)) = 1
   \<and> map_of (forms (projr (SendForm plain 1 wrapped confirmModal))) 1 = Some confirmModal"
proof -
  obtain m where m: "formToMap confirmModal = Inr m"
    by (cases "formToMap confirmModal") (auto simp: confirmModal_def)
  have free: "\<not> mu wrapped" by (simp add: wrapped_fields)
  from SendForm_free [OF free m, of plain 1] wrapped_fields
  show ?thesis by (simp add: Local_def update_conv')
qed

text \<open>
  Claim C5, amended. On a session reached from a fresh one, \<open>Local\<close> is the number of
  packets the session has written (modulo \<open>2 ^ 32\<close>), 0 at the start, so the first
  identifier is 1. A call of \<open>SendForm\<close> that encodes and finds the mutex free adds one to
  it (modulo \<open>2 ^ 32\<close>), writes the packet with the new value, stores the form under it,
  and \<open>Local\<close> returns it. As long as fewer than \<open>2 ^ 32 - 1\<close> packets have been written,
  the new identifier is greater by one as a number and is not a key of the table.
\<close>

theorem SendForm_identifiers:
  assumes "u = run ext cs (NewUser c0)" and "\<not> mu u" and "\<not> isl (formToMap f)"
  shows "Local (NewUser c0) = 0
       \<and> Local u = of_nat (length (conn u) - length c0)
       \<and> (\<exists>u' b. SendForm ext c u f = Inr u'
             \<and> Local u' = Local u + 1
             \<and> conn u' = conn u @ [\<lparr>FormID = Local u', FormData = b\<rparr>]
             \<and> map_of (forms u') (Local u') = Some f
             \<and> (length (conn u) - length c0 < 2 ^ 32 - 1
                  \<longrightarrow> unat (Local u') = Suc (unat (Local u))
                    \<and> Local u' \<notin> fst ` set (forms u)))"
proof -
  define n where "n = length (conn u) - length c0"
  from assms(3) obtain m where m: "formToMap f = Inr m" by (cases "formToMap f") auto
  from run_ids [of c0 ext cs] assms(1)
  have l: "localFormId u = of_nat n" and keys: "fst ` set (forms u) \<subseteq> of_nat ` {1..n}"
    by (simp_all add: n_def)
  from SendForm_free [OF assms(2) m, of ext c]
  obtain u' b where s: "SendForm ext c u f = Inr u'"
    and l': "localFormId u' = localFormId u + 1"
    and c': "conn u' = conn u @ [\<lparr>FormID = localFormId u + 1, FormData = b\<rparr>]"
    and t: "map_of (forms u') (localFormId u + 1) = Some f"
    by (simp add: update_conv')
  have bound: "unat (localFormId u + 1) = Suc (unat (localFormId u))
             \<and> localFormId u + 1 \<notin> fst ` set (forms u)" if "n < 2 ^ 32 - 1"
  proof -
    have "(of_nat n :: uint32) + 1 = of_nat (Suc n)" by simp
    with next_id_fresh [OF that] keys have "localFormId u + 1 \<notin> fst ` set (forms u)"
      unfolding l by (simp only:) blast
    with unat_next_id [OF that] show ?thesis by (simp only: l simp_thms)
  qed
  have "Local (NewUser c0) = 0" by (simp add: Local_def NewUser_def)
  moreover have "Local u = of_nat (length (conn u) - length c0)"
    using l by (simp only: Local_def n_def)
  moreover have "\<exists>u' b. SendForm ext c u f = Inr u'
             \<and> Local u' = Local u + 1
             \<and> conn u' = conn u @ [\<lparr>FormID = Local u', FormData = b\<rparr>]
             \<and> map_of (forms u') (Local u') = Some f
             \<and> (length (conn u) - length c0 < 2 ^ 32 - 1
                  \<longrightarrow> unat (Local u') = Suc (unat (Local u))
                    \<and> Local u' \<notin> fst ` set (forms u))"
    using s l' c' t bound unfolding Local_def n_def
    by (intro exI [of _ u'] exI [of _ b]) (simp only: simp_thms, blast)
  ultimately show ?thesis by (simp only: simp_thms)
qed

theorem SendForm_identifiers_witness:
  "\<not> mu pendingMenu \<and> \<not> isl (formToMap confirmModal)
   \<and> Local (NewUser []) = 0 \<and> Local pendingMenu = 1
   \<and> (\<exists>u' b. SendForm plain 0 pendingMenu confirmModal = Inr u'
           \<and> Local u' = 2
           \<and> conn u' = conn pendingMenu @ [\<lparr>FormID = 2, FormData = b\<rparr>]
           \<and> map_of (forms u') 2 = Some confirmModal
           \<and> unat (Local u') = Suc (unat (Local pendingMenu))
           \<and> Local u' \<notin> fst ` set (forms pendingMenu))"
proof -
  have h1: "pendingMenu = run plain [Send 0 shopMenu] (NewUser [])"
    by (rule pendingMenu_def)
  have h2: "\<not> mu pendingMenu" by (simp add: pendingMenu_fields)
  have h3: "\<not> isl (formToMap confirmModal)" by (simp add: confirmModal_def)
  have c: "length (conn pendingMenu) = 1"
    by (simp add: pendingMenu_def run_def SendForm_def NewUser_def Let_def shopMenu_def)
  from SendForm_identifiers [OF h1 h2 h3, of 0] h2 h3 c
  show ?thesis by (auto simp: Local_def pendingMenu_fields)
qed

end
